theory Spec2Isabelle
  imports Main "HOL-Library.AList"
begin

section \<open>Python values used by app.py\<close>

text \<open>
  A Python \<^verbatim>\<open>str\<close> is a sequence of Unicode code points: a list of numbers.
  \<open>lit\<close> is the string a literal of ASCII text denotes.
\<close>

type_synonym pystr = "nat list"

definition lit :: "string \<Rightarrow> pystr" where
  "lit s = map of_char s"

text \<open>
  Which characters are whitespace (\<^verbatim>\<open>str.strip\<close>) and which are decimal digits
  (the class \<^verbatim>\<open>\d\<close> of a \<^verbatim>\<open>str\<close> pattern) is read from the Unicode
  database of the interpreter. Its ASCII part is the same in every version and is written
  out below; the rest of the two tables is a parameter of the model.
\<close>

record unicode_tables =
  uni_space :: "nat \<Rightarrow> bool"
  uni_decimal :: "nat \<Rightarrow> bool"

definition is_space :: "unicode_tables \<Rightarrow> nat \<Rightarrow> bool" where
  "is_space u c =
     (if c < 128 then c \<in> set [0x09, 0x0A, 0x0B, 0x0C, 0x0D, 0x1C, 0x1D, 0x1E, 0x1F, 0x20]
      else uni_space u c)"

definition is_digit :: "unicode_tables \<Rightarrow> nat \<Rightarrow> bool" where
  "is_digit u c = (if c < 128 then 0x30 \<le> c \<and> c \<le> 0x39 else uni_decimal u c)"

text \<open>The two tables beyond ASCII as Unicode 14.0 has them (Python 3.11): the whitespace
  characters, and the decimal digits, which come in runs that start at the listed code
  points.\<close>

definition unicode14_space :: "nat \<Rightarrow> bool" where
  "unicode14_space c =
     (c \<in> set [0x85, 0xA0, 0x1680, 0x2028, 0x2029, 0x202F, 0x205F, 0x3000]
      \<or> (0x2000 \<le> c \<and> c \<le> 0x200A))"

definition unicode14_decimal :: "nat \<Rightarrow> bool" where
  "unicode14_decimal c =
     (list_ex (\<lambda>start. start \<le> c \<and> c < start + 10)
        [0x660, 0x6F0, 0x7C0, 0x966, 0x9E6, 0xA66, 0xAE6, 0xB66, 0xBE6, 0xC66, 0xCE6, 0xD66,
         0xDE6, 0xE50, 0xED0, 0xF20, 0x1040, 0x1090, 0x17E0, 0x1810, 0x1946, 0x19D0, 0x1A80,
         0x1A90, 0x1B50, 0x1BB0, 0x1C40, 0x1C50, 0xA620, 0xA8D0, 0xA900, 0xA9D0, 0xA9F0,
         0xAA50, 0xABF0, 0xFF10, 0x104A0, 0x10D30, 0x11066, 0x110F0, 0x11136, 0x111D0,
         0x112F0, 0x11450, 0x114D0, 0x11650, 0x116C0, 0x11730, 0x118E0, 0x11950, 0x11C50,
         0x11D50, 0x11DA0, 0x16A60, 0x16AC0, 0x16B50, 0x1E140, 0x1E2F0, 0x1E950, 0x1FBF0]
      \<or> (0x1D7CE \<le> c \<and> c < 0x1D7CE + 50))"

definition unicode14 :: unicode_tables where
  "unicode14 = \<lparr>uni_space = unicode14_space, uni_decimal = unicode14_decimal\<rparr>"

text \<open>\<^verbatim>\<open>s.strip()\<close>: whitespace removed at both ends.\<close>

definition strip :: "unicode_tables \<Rightarrow> pystr \<Rightarrow> pystr" where
  "strip u s = rev (dropWhile (is_space u) (rev (dropWhile (is_space u) s)))"

text \<open>
  \<^verbatim>\<open>s.lower()\<close>, as far as line 30 needs it: the ASCII letters are lower-cased and
  every other character is kept. Python also lower-cases letters beyond ASCII, but none of
  them to text that holds one of the characters of \<^verbatim>\<open>.png\<close>, \<^verbatim>\<open>.jpg\<close>
  or \<^verbatim>\<open>.jpeg\<close>, so the test of line 30 cannot tell the difference.
\<close>

definition lower_char :: "nat \<Rightarrow> nat" where
  "lower_char c = (if 0x41 \<le> c \<and> c \<le> 0x5A then c + 0x20 else c)"

definition lower :: "pystr \<Rightarrow> pystr" where
  "lower s = map lower_char s"

text \<open>\<^verbatim>\<open>s.endswith(suffix)\<close>\<close>

definition endswith :: "pystr \<Rightarrow> pystr \<Rightarrow> bool" where
  "endswith s suf = (length suf \<le> length s \<and> drop (length s - length suf) s = suf)"

text \<open>
  The three numbers app.py uses as a confidence: the float literals \<^verbatim>\<open>1.0\<close> and
  \<^verbatim>\<open>0.0\<close> (line 82) and the int literal \<^verbatim>\<open>0\<close> (lines 40 and 88).
\<close>

datatype pynum = Int0 | Float0 | Float1

text \<open>\<^verbatim>\<open>f"{confidence:.2%}"\<close> (line 162) on these three values.\<close>

fun format_percent :: "pynum \<Rightarrow> pystr" where
  "format_percent Float1 = lit ''100.00%''"
| "format_percent Float0 = lit ''0.00%''"
| "format_percent Int0 = lit ''0.00%''"

text \<open>
  Exceptions, as values. \<^verbatim>\<open>requests.Timeout\<close> is a subclass of
  \<^verbatim>\<open>requests.RequestException\<close>; the constructor \<open>RequestException\<close>
  stands for the other request failures and carries \<^verbatim>\<open>str(e)\<close>;
  \<open>ServiceError\<close> stands for whatever the judgment service raises. All of them are
  subclasses of \<^verbatim>\<open>Exception\<close>.
\<close>

datatype exn =
    Timeout
  | RequestException pystr
  | AttributeError
  | IndexError
  | TypeError
  | ServiceError pystr

section \<open>The reference store and \<^verbatim>\<open>load_reference_images\<close>\<close>

text \<open>
  The directory \<^verbatim>\<open>reference_images\<close>, as \<^verbatim>\<open>os.listdir\<close> and
  \<^verbatim>\<open>os.path.isdir\<close> show it: the entries of the root in listing order, each a
  file or a directory with the names of its own entries (the loader never looks at what
  kind of entry a name inside a category is). The root exists: line 20 creates it.
\<close>

datatype entry = File | Dir "pystr list"

type_synonym store = "(pystr \<times> entry) list"

text \<open>The dict \<^verbatim>\<open>reference_data\<close>, in insertion order.\<close>

type_synonym reference_data = "(pystr \<times> pystr list) list"

definition REFERENCE_IMAGES_DIR :: pystr where
  "REFERENCE_IMAGES_DIR = lit ''reference_images''"

text \<open>\<^verbatim>\<open>os.path.join(a, b)\<close> for a name \<open>b\<close> of a directory entry (POSIX).\<close>

definition path_join :: "pystr \<Rightarrow> pystr \<Rightarrow> pystr" where
  "path_join a b = a @ lit ''/'' @ b"

text \<open>Line 30: \<^verbatim>\<open>img_file.lower().endswith(('.png', '.jpg', '.jpeg'))\<close>\<close>

definition is_image_file :: "pystr \<Rightarrow> bool" where
  "is_image_file img_file =
     (endswith (lower img_file) (lit ''.png'') \<or> endswith (lower img_file) (lit ''.jpg'')
      \<or> endswith (lower img_file) (lit ''.jpeg''))"

text \<open>Lines 29-32: the inner loop, appending to the category's list.\<close>

definition load_category :: "pystr \<Rightarrow> pystr list \<Rightarrow> pystr list" where
  "load_category category_path img_files =
     fold (\<lambda>img_file acc.
             if is_image_file img_file then acc @ [path_join category_path img_file] else acc)
          img_files []"

text \<open>Lines 26-32: the body of the outer loop, for one entry of the root.
  \<open>AList.update\<close> is the dict assignment of line 28.\<close>

definition load_step :: "pystr \<times> entry \<Rightarrow> reference_data \<Rightarrow> reference_data" where
  "load_step = (\<lambda>(category, e) reference_data.
     case e of
       Dir img_files \<Rightarrow>
         AList.update category
           (load_category (path_join REFERENCE_IMAGES_DIR category) img_files)
           reference_data
     | File \<Rightarrow> reference_data)"

text \<open>Lines 22-33.\<close>

definition load_reference_images :: "store \<Rightarrow> reference_data" where
  "load_reference_images root = fold load_step root []"

section \<open>The world outside: HTTP, the store over time, the judgment service\<close>

text \<open>
  The parsed body of a response (\<^verbatim>\<open>response.json()\<close>). An object keeps its
  members as written. A float is given by the two things app.py can read of it: whether
  it is non-zero (its truth value) and its text (what an f-string interpolates).
\<close>

datatype json =
    JNull
  | JBool bool
  | JInt int
  | JFloat bool pystr
  | JStr pystr
  | JArr "json list"
  | JObj "(pystr \<times> json) list"

text \<open>A \<^verbatim>\<open>requests.Response\<close>: the fields and the method app.py reads.
  \<open>json_body\<close> is what \<^verbatim>\<open>response.json()\<close> does: it raises or it returns.\<close>

record http_response =
  status_code :: int
  json_body :: "exn + json"

text \<open>
  Everything the program reads from outside, as functions the program only calls:
  \<^item> \<open>http_get k url\<close>: the outcome of the \<open>k\<close>-th GET of the session (0 is the
    page view of line 126, 1 the API request of line 129);
  \<^item> \<open>store_at k\<close>: the reference store when the \<open>k\<close>-th image of a batch is
    judged (another process may change the directory between two images);
  \<^item> \<open>service_at k reference candidate\<close>: what
    \<^verbatim>\<open>client.chat.completions.create\<close> does when called for the \<open>k\<close>-th
    image: it raises, or it returns choices, each with its
    \<^verbatim>\<open>message.content\<close> (a string or \<^verbatim>\<open>None\<close>);
  \<^item> \<open>unicode\<close>: the interpreter's Unicode tables beyond ASCII;
  \<^item> \<open>py_repr\<close>: the interpreter's \<^verbatim>\<open>repr\<close> of a parsed list or dict.
\<close>

record world =
  http_get :: "nat \<Rightarrow> pystr \<Rightarrow> exn + http_response"
  store_at :: "nat \<Rightarrow> store"
  service_at :: "nat \<Rightarrow> pystr \<Rightarrow> pystr \<Rightarrow> exn + pystr option list"
  unicode :: unicode_tables
  py_repr :: "json \<Rightarrow> pystr"

text \<open>What a run does to the outside, in order. The debug prints are left out.\<close>

datatype event =
    HttpGet pystr
  | ScanStore reference_data
  | CallService pystr pystr
  | WriteCsv pystr "pystr list list"

section \<open>\<^verbatim>\<open>compare_with_reference\<close>\<close>

text \<open>Lines 75-84, the body of the \<^verbatim>\<open>try\<close> once the request is built:
  the call, \<^verbatim>\<open>response.choices[0].message.content.strip()\<close> and the confidence.\<close>

definition judge_response ::
  "unicode_tables \<Rightarrow> exn + pystr option list \<Rightarrow> exn + pystr \<times> pynum" where
  "judge_response u outcome =
     (case outcome of
        Inl e \<Rightarrow> Inl e
      | Inr [] \<Rightarrow> Inl IndexError
      | Inr (None # _) \<Rightarrow> Inl AttributeError
      | Inr (Some content # _) \<Rightarrow>
          (let result = strip u content;
               confidence = (if result = lit ''Pass'' then Float1 else Float0)
           in Inr (result, confidence)))"

text \<open>Lines 35-88. \<open>k\<close> is the position of the image in its batch. The result is the
  returned pair and the events of the call.\<close>

definition compare_with_reference ::
  "world \<Rightarrow> nat \<Rightarrow> pystr \<Rightarrow> pystr \<Rightarrow> (pystr \<times> pynum) \<times> event list" where
  "compare_with_reference w k image_url product_category =
     (let reference_data = load_reference_images (store_at w k);
          reference_images =
            (case map_of reference_data product_category of None \<Rightarrow> [] | Some l \<Rightarrow> l)
      in case reference_images of
           [] \<Rightarrow>
             ((lit ''Error: No reference images found for this category'', Int0),
              [ScanStore reference_data])
         | reference # _ \<Rightarrow>
             (case judge_response (unicode w) (service_at w k reference image_url) of
                Inr r \<Rightarrow> (r, [ScanStore reference_data, CallService reference image_url])
              | Inl e \<Rightarrow>
                  ((lit ''Error'', Int0),
                   [ScanStore reference_data, CallService reference image_url])))"

section \<open>The listing URL: \<^verbatim>\<open>re.search(r'i\.(\d+)\.(\d+)', product_url)\<close>\<close>

text \<open>
  A match of the pattern that starts at the head of \<open>s\<close>, with its two groups. Each
  \<^verbatim>\<open>\d+\<close> is greedy and takes the whole run of digits; giving digits back never
  helps the first group, since the character after a shorter run is a digit and not the
  dot the pattern needs next, and the second group has nothing after it to give back for.
\<close>

definition match_here :: "unicode_tables \<Rightarrow> pystr \<Rightarrow> (pystr \<times> pystr) option" where
  "match_here u s =
     (case s of
        c1 # c2 # r \<Rightarrow>
          if [c1, c2] = lit ''i.'' \<and> takeWhile (is_digit u) r \<noteq> [] then
            (case dropWhile (is_digit u) r of
               c3 # r2 \<Rightarrow>
                 if [c3] = lit ''.'' \<and> takeWhile (is_digit u) r2 \<noteq> []
                 then Some (takeWhile (is_digit u) r, takeWhile (is_digit u) r2)
                 else None
             | [] \<Rightarrow> None)
          else None
      | _ \<Rightarrow> None)"

text \<open>\<^verbatim>\<open>re.search\<close> tries the start positions from left to right.\<close>

fun re_search :: "unicode_tables \<Rightarrow> pystr \<Rightarrow> (pystr \<times> pystr) option" where
  "re_search u [] = None"
| "re_search u (c # cs) =
     (case match_here u (c # cs) of Some groups \<Rightarrow> Some groups | None \<Rightarrow> re_search u cs)"

section \<open>Formatting numbers\<close>

definition digit_char :: "nat \<Rightarrow> nat" where
  "digit_char d = 0x30 + d mod 10"

function str_nat :: "nat \<Rightarrow> pystr" where
  "str_nat n = (if n < 10 then [digit_char n] else str_nat (n div 10) @ [digit_char (n mod 10)])"
  by pat_completeness auto
termination
  by (relation "measure id") auto

text \<open>\<^verbatim>\<open>str(i)\<close> of an int, as an f-string interpolates it.\<close>

definition str_int :: "int \<Rightarrow> pystr" where
  "str_int i = (if i < 0 then lit ''-'' @ str_nat (nat (- i)) else str_nat (nat i))"

section \<open>Reading the product data\<close>

text \<open>\<^verbatim>\<open>x.get(key, default)\<close>: a dict answers (the last member of that name is the
  one \<^verbatim>\<open>json\<close> kept); any other value has no attribute \<^verbatim>\<open>get\<close>.\<close>

fun py_get :: "json \<Rightarrow> pystr \<Rightarrow> json \<Rightarrow> exn + json" where
  "py_get (JObj members) key dflt =
     Inr (case map_of (rev members) key of Some v \<Rightarrow> v | None \<Rightarrow> dflt)"
| "py_get _ key dflt = Inl AttributeError"

text \<open>Line 139:
  \<^verbatim>\<open>product_data.get('data', {}).get('product_info', {}).get('images', [])\<close>\<close>

definition product_images_of :: "json \<Rightarrow> exn + json" where
  "product_images_of product_data =
     (case py_get product_data (lit ''data'') (JObj []) of
        Inl e \<Rightarrow> Inl e
      | Inr data \<Rightarrow>
          (case py_get data (lit ''product_info'') (JObj []) of
             Inl e \<Rightarrow> Inl e
           | Inr product_info \<Rightarrow> py_get product_info (lit ''images'') (JArr [])))"

text \<open>Python's truth value of a parsed JSON value (\<^verbatim>\<open>if not product_images\<close>).\<close>

fun truthy :: "json \<Rightarrow> bool" where
  "truthy JNull = False"
| "truthy (JBool b) = b"
| "truthy (JInt i) = (i \<noteq> 0)"
| "truthy (JFloat nonzero text) = nonzero"
| "truthy (JStr s) = (s \<noteq> [])"
| "truthy (JArr items) = (items \<noteq> [])"
| "truthy (JObj members) = (members \<noteq> [])"

text \<open>\<^verbatim>\<open>for img_id in product_images\<close>: a list gives its items, a string its
  characters, a dict its keys in insertion order; a number, a bool or
  \<^verbatim>\<open>None\<close> is not iterable.\<close>

fun py_iter :: "json \<Rightarrow> exn + json list" where
  "py_iter (JArr items) = Inr items"
| "py_iter (JStr s) = Inr (map (\<lambda>c. JStr [c]) s)"
| "py_iter (JObj members) = Inr (map JStr (rev (remdups (rev (map fst members)))))"
| "py_iter _ = Inl TypeError"

text \<open>The interpolation \<^verbatim>\<open>{img_id}\<close> of line 146: a string as it is, any other
  value by its \<^verbatim>\<open>str\<close>, which for a list or a dict is its \<^verbatim>\<open>repr\<close>.\<close>

fun py_format :: "world \<Rightarrow> json \<Rightarrow> pystr" where
  "py_format w (JStr s) = s"
| "py_format w (JInt i) = str_int i"
| "py_format w (JBool b) = (if b then lit ''True'' else lit ''False'')"
| "py_format w JNull = lit ''None''"
| "py_format w (JFloat nonzero text) = text"
| "py_format w (JArr items) = py_repr w (JArr items)"
| "py_format w (JObj members) = py_repr w (JObj members)"

text \<open>The image identifiers the loop of line 145 runs over, as interpolated.\<close>

definition image_ids :: "world \<Rightarrow> json \<Rightarrow> exn + pystr list" where
  "image_ids w product_images =
     (case py_iter product_images of
        Inl e \<Rightarrow> Inl e
      | Inr items \<Rightarrow> Inr (map (py_format w) items))"

section \<open>\<^verbatim>\<open>scrape_shopee_reviews\<close>\<close>

text \<open>One entry of \<^verbatim>\<open>results\<close> (lines 148-152).\<close>

record result_row =
  image_url :: pystr
  classification :: pystr
  confidence :: pynum

definition cdn_url :: "pystr \<Rightarrow> pystr" where
  "cdn_url img_id = lit ''https://cf.shopee.co.id/file/'' @ img_id"

text \<open>Lines 144-152: the loop over the images; \<open>k\<close> counts the images judged
  before.\<close>

fun judge_images :: "world \<Rightarrow> pystr \<Rightarrow> nat \<Rightarrow> pystr list \<Rightarrow> result_row list \<times> event list" where
  "judge_images w product_category k [] = ([], [])"
| "judge_images w product_category k (img_id # img_ids) =
     (case compare_with_reference w k (cdn_url img_id) product_category of
        ((classification_result, conf), evs) \<Rightarrow>
          (case judge_images w product_category (Suc k) img_ids of
             (results, evs') \<Rightarrow>
               (\<lparr>image_url = cdn_url img_id, classification = classification_result,
                  confidence = conf\<rparr> # results,
                evs @ evs')))"

definition output_file :: pystr where
  "output_file = lit ''authenticity_check.csv''"

text \<open>Lines 155-163: the rows handed to the CSV writer.\<close>

definition csv_rows :: "result_row list \<Rightarrow> pystr list list" where
  "csv_rows results =
     [lit ''image_url'', lit ''authenticity_result'', lit ''confidence'']
     # map (\<lambda>r. [image_url r, classification r, format_percent (confidence r)]) results"

text \<open>Line 165.\<close>

definition pass_count :: "result_row list \<Rightarrow> nat" where
  "pass_count results = length (filter (\<lambda>r. classification r = lit ''Pass'') results)"

text \<open>Lines 167-174: the f-string, with its line breaks and indentation.\<close>

definition summary_text :: "nat \<Rightarrow> nat \<Rightarrow> pystr" where
  "summary_text total_images passed =
     [0x0A] @ lit ''        Authenticity Check Results:'' @
     [0x0A] @ lit ''        Total Images Analyzed: '' @ str_nat total_images @
     [0x0A] @ lit ''        Appears Authentic: '' @ str_nat passed @
     [0x0A] @ lit ''        Potentially Counterfeit: '' @ str_nat (total_images - passed) @
     [0x0A] @ lit ''        '' @
     [0x0A] @ lit ''        Detailed results saved to '' @ output_file @
     [0x0A] @ lit ''        ''"

definition page_url :: "pystr \<Rightarrow> pystr \<Rightarrow> pystr" where
  "page_url shop_id item_id = lit ''https://shopee.co.id/-i.'' @ shop_id @ lit ''.'' @ item_id"

definition api_url :: "pystr \<Rightarrow> pystr \<Rightarrow> pystr" where
  "api_url shop_id item_id =
     lit ''https://shopee.co.id/api/v4/pdp/get_pc?shop_id='' @ shop_id
     @ lit ''&item_id='' @ item_id"

text \<open>Lines 165-176: the summary and the returned pair. \<^verbatim>\<open>results[0]\<close> of an
  empty list raises.\<close>

definition report :: "result_row list \<Rightarrow> exn + pystr \<times> pystr option" where
  "report results =
     (case results of
        [] \<Rightarrow> Inl IndexError
      | first # _ \<Rightarrow>
          Inr (summary_text (length results) (pass_count results), Some (image_url first)))"

text \<open>
  The body of the \<^verbatim>\<open>try\<close> (lines 122-176), in three steps. In each result
  \<open>Inl e\<close> is an exception raised inside the \<^verbatim>\<open>try\<close> and \<open>Inr\<close> a
  \<^verbatim>\<open>return\<close>.

  Lines 144-176: the loop, the CSV file, the summary.
\<close>

definition judge_and_report ::
  "world \<Rightarrow> pystr \<Rightarrow> pystr list \<Rightarrow> (exn + pystr \<times> pystr option) \<times> event list" where
  "judge_and_report w product_category img_ids =
     (case judge_images w product_category 0 img_ids of
        (results, evs) \<Rightarrow> (report results, evs @ [WriteCsv output_file (csv_rows results)]))"

text \<open>Lines 131-176: what is done with the response of the API.\<close>

definition process_response ::
  "world \<Rightarrow> pystr \<Rightarrow> http_response \<Rightarrow> (exn + pystr \<times> pystr option) \<times> event list" where
  "process_response w product_category response =
     (if status_code response \<noteq> 200 then
        (Inr (lit ''Error: Failed to fetch product data (HTTP ''
                @ str_int (status_code response) @ lit '').'', None), [])
      else
        (case json_body response of
           Inl e \<Rightarrow> (Inl e, [])
         | Inr product_data \<Rightarrow>
             (case product_images_of product_data of
                Inl e \<Rightarrow> (Inl e, [])
              | Inr product_images \<Rightarrow>
                  if \<not> truthy product_images then
                    (Inr (lit ''Error: No product images found.'', None), [])
                  else
                    (case image_ids w product_images of
                       Inl e \<Rightarrow> (Inl e, [])
                     | Inr img_ids \<Rightarrow> judge_and_report w product_category img_ids))))"

text \<open>Lines 122-176: the page view, the API request, and the rest.\<close>

definition scrape_try ::
  "world \<Rightarrow> pystr \<Rightarrow> pystr \<Rightarrow> pystr \<Rightarrow> (exn + pystr \<times> pystr option) \<times> event list" where
  "scrape_try w shop_id item_id product_category =
     (case http_get w 0 (page_url shop_id item_id) of
        Inl e \<Rightarrow> (Inl e, [HttpGet (page_url shop_id item_id)])
      | Inr _ \<Rightarrow>
          (case http_get w 1 (api_url shop_id item_id) of
             Inl e \<Rightarrow>
               (Inl e, [HttpGet (page_url shop_id item_id), HttpGet (api_url shop_id item_id)])
           | Inr response \<Rightarrow>
               (case process_response w product_category response of
                  (r, evs) \<Rightarrow>
                    (r, [HttpGet (page_url shop_id item_id), HttpGet (api_url shop_id item_id)]
                        @ evs))))"

text \<open>Lines 178-181: the two handlers; any other exception leaves the function.\<close>

fun handle_request_errors :: "exn + pystr \<times> pystr option \<Rightarrow> exn + pystr \<times> pystr option" where
  "handle_request_errors (Inl Timeout) =
     Inr (lit ''Error: Request timed out. Please try again.'', None)"
| "handle_request_errors (Inl (RequestException detail)) =
     Inr (lit ''Error: Failed to fetch data: '' @ detail, None)"
| "handle_request_errors r = r"

text \<open>Lines 91-99: the two checks of the URL; \<open>Inl\<close> is the message of the
  early \<^verbatim>\<open>return\<close>, \<open>Inr\<close> the pair \<^verbatim>\<open>match.groups()\<close>.\<close>

definition parse_listing_url :: "unicode_tables \<Rightarrow> pystr \<Rightarrow> pystr + pystr \<times> pystr" where
  "parse_listing_url u product_url =
     (if product_url = [] \<or> strip u product_url = [] then
        Inl (lit ''Error: Product URL is required.'')
      else
        (case re_search u product_url of
           None \<Rightarrow> Inl (lit ''Error: Invalid Shopee URL format. Please try again.'')
         | Some groups \<Rightarrow> Inr groups))"

text \<open>Lines 90-181. The result is what the call returns (\<open>Inr\<close>) or the exception
  that leaves it (\<open>Inl\<close>), and the events of the run.\<close>

definition scrape_shopee_reviews ::
  "world \<Rightarrow> pystr \<Rightarrow> pystr \<Rightarrow> (exn + pystr \<times> pystr option) \<times> event list" where
  "scrape_shopee_reviews w product_url product_category =
     (case parse_listing_url (unicode w) product_url of
        Inl message \<Rightarrow> (Inr (message, None), [])
      | Inr (shop_id, item_id) \<Rightarrow>
          (case scrape_try w shop_id item_id product_category of
             (r, evs) \<Rightarrow> (handle_request_errors r, evs)))"

section \<open>What the pattern of line 95 denotes\<close>

text \<open>A non-empty run of digits (\<^verbatim>\<open>\d+\<close>).\<close>

definition digits :: "unicode_tables \<Rightarrow> pystr \<Rightarrow> bool" where
  "digits u d = (d \<noteq> [] \<and> list_all (is_digit u) d)"

text \<open>\<open>s\<close> holds, after \<open>pre\<close>, a segment \<^verbatim>\<open>i.<shop>.<item>\<close>.\<close>

definition segment_at ::
  "unicode_tables \<Rightarrow> pystr \<Rightarrow> pystr \<Rightarrow> pystr \<Rightarrow> pystr \<Rightarrow> pystr \<Rightarrow> bool" where
  "segment_at u pre shop item post s =
     (s = pre @ lit ''i.'' @ shop @ lit ''.'' @ item @ post \<and> digits u shop \<and> digits u item)"

definition has_segment :: "unicode_tables \<Rightarrow> pystr \<Rightarrow> bool" where
  "has_segment u s = (\<exists>pre shop item post. segment_at u pre shop item post s)"

section \<open>A sample run\<close>

text \<open>
  A listing with the images \<open>A\<close> and \<open>B\<close>, a store with one reference image for the
  category \<open>bags\<close>, and a service that answers \<open>Pass\<close> for \<open>A\<close> and \<open>garbage\<close>
  for everything else. The interpreter has the tables of Unicode 14.0; its
  \<^verbatim>\<open>repr\<close> plays no part in the sample runs and is given a fixed text.
\<close>

definition sample_store :: store where
  "sample_store =
     [(lit ''bags'', Dir [lit ''ref.jpg'', lit ''notes.txt'']), (lit ''README.md'', File),
      (lit ''empty'', Dir [lit ''readme.txt''])]"

definition listing_body :: "json \<Rightarrow> json" where
  "listing_body images =
     JObj [(lit ''data'', JObj [(lit ''product_info'', JObj [(lit ''images'', images)])])]"

definition sample_world :: world where
  "sample_world =
     \<lparr>http_get = (\<lambda>k url.
        Inr \<lparr>status_code = 200,
             json_body = Inr (listing_body (JArr [JStr (lit ''A''), JStr (lit ''B'')]))\<rparr>),
      store_at = (\<lambda>k. sample_store),
      service_at = (\<lambda>k reference candidate.
        if candidate = cdn_url (lit ''A'') then Inr [Some (lit ''Pass'')]
        else Inr [Some (lit '' garbage '')]),
      unicode = unicode14,
      py_repr = (\<lambda>v. lit ''[...]'')\<rparr>"

definition sample_url :: pystr where
  "sample_url = lit ''https://example.co.id/-i.111.222''"

text \<open>The same, with a service that answers with the text \<open>Error\<close>.\<close>

definition error_text_world :: world where
  "error_text_world =
     sample_world\<lparr>service_at := (\<lambda>k reference candidate. Inr [Some (lit ''Error'')])\<rparr>"

text \<open>The same, with a service that answers \<open>Pass\<close> between a no-break space and a
  next-line character.\<close>

definition padded_pass_world :: world where
  "padded_pass_world =
     sample_world\<lparr>service_at := (\<lambda>k reference candidate.
        Inr [Some ([0xA0] @ lit ''Pass'' @ [0x85])])\<rparr>"

text \<open>The same, with a service that raises for the image \<open>A\<close> and answers
  \<open>Pass\<close> for any other.\<close>

definition failing_service_world :: world where
  "failing_service_world =
     sample_world\<lparr>service_at := (\<lambda>k reference candidate.
        if candidate = cdn_url (lit ''A'') then Inl (ServiceError (lit ''overloaded''))
        else Inr [Some (lit ''Pass'')])\<rparr>"


text \<open>The same, with an API that answers \<^verbatim>\<open>{"data": null}\<close>.\<close>

definition null_data_world :: world where
  "null_data_world =
     sample_world\<lparr>http_get := (\<lambda>k url.
        Inr \<lparr>status_code = 200, json_body = Inr (JObj [(lit ''data'', JNull)])\<rparr>)\<rparr>"

text \<open>The same, with a store that is emptied after the first image is judged.\<close>

definition changing_store_world :: world where
  "changing_store_world =
     sample_world\<lparr>store_at := (\<lambda>k. if k = 0 then sample_store else [])\<rparr>"

section \<open>Reading a run\<close>

text \<open>The mappings the scans of a run returned, in order.\<close>

fun scans :: "event list \<Rightarrow> reference_data list" where
  "scans [] = []"
| "scans (ScanStore reference_data # evs) = reference_data # scans evs"
| "scans (_ # evs) = scans evs"

section \<open>Facts about strings\<close>

lemma endswith_iff: "endswith s suf \<longleftrightarrow> (\<exists>stem. s = stem @ suf)"
proof
  assume "endswith s suf"
  then have "s = take (length s - length suf) s @ suf"
    by (metis append_take_drop_id endswith_def)
  then show "\<exists>stem. s = stem @ suf" ..
next
  assume "\<exists>stem. s = stem @ suf"
  then show "endswith s suf" by (auto simp: endswith_def)
qed

lemma lower_split:
  "(\<exists>stem. lower f = stem @ suf) \<longleftrightarrow> (\<exists>stem ext. f = stem @ ext \<and> lower ext = suf)"
  unfolding lower_def by (auto simp: map_eq_append_conv)

lemma strip_empty_iff: "strip u s = [] \<longleftrightarrow> list_all (is_space u) s"
proof -
  have "strip u s = [] \<longleftrightarrow> dropWhile (is_space u) (rev (dropWhile (is_space u) s)) = []"
    by (simp add: strip_def)
  also have "\<dots> \<longleftrightarrow> (\<forall>c \<in> set (dropWhile (is_space u) s). is_space u c)"
    by simp
  also have "\<dots> \<longleftrightarrow> dropWhile (is_space u) s = []"
    by (metis dropWhile_eq_Nil_conv dropWhile_idem)
  also have "\<dots> \<longleftrightarrow> list_all (is_space u) s"
    by (simp add: list_all_iff)
  finally show ?thesis .
qed

lemma lit_Nil: "lit [] = []"
  by (simp add: lit_def)

lemma lit_Cons: "lit (c # cs) = of_char c # lit cs"
  by (simp add: lit_def)

lemma lit_append: "lit (a @ b) = lit a @ lit b"
  by (simp add: lit_def)

lemma dot_not_digit: "\<not> is_digit u 46"
  by (simp add: is_digit_def)

lemma lit_dot: "lit ''.'' = [46]"
  by (simp add: lit_def)

lemma lit_i_dot: "lit ''i.'' = [105, 46]"
  by (simp add: lit_def)

lemma takeWhile_digits_dot:
  "list_all (is_digit u) a \<Longrightarrow> takeWhile (is_digit u) (a @ 46 # r) = a"
  by (induction a) (auto simp: dot_not_digit)

lemma dropWhile_digits_dot:
  "list_all (is_digit u) a \<Longrightarrow> dropWhile (is_digit u) (a @ 46 # r) = 46 # r"
  by (induction a) (auto simp: dot_not_digit)

lemma takeWhile_digits_app:
  "list_all (is_digit u) b \<Longrightarrow>
     takeWhile (is_digit u) (b @ post) = b @ takeWhile (is_digit u) post"
  by (induction b) auto

section \<open>The loader\<close>

lemma load_category_acc:
  "fold (\<lambda>img_file acc. if is_image_file img_file then acc @ [path_join p img_file] else acc)
        fs acc0
   = acc0 @ map (path_join p) (filter is_image_file fs)"
  by (induction fs arbitrary: acc0) auto

lemma load_category_eq:
  "load_category p fs = map (path_join p) (filter is_image_file fs)"
  by (simp add: load_category_def load_category_acc)

lemma is_image_jpg: "is_image_file (a @ lit ''.jpg'')"
  by (simp add: is_image_file_def endswith_iff lower_def lower_char_def lit_def)

lemma is_image_txt: "\<not> is_image_file (t @ lit ''.txt'')"
  by (simp add: is_image_file_def endswith_def lower_def lower_char_def lit_def)

lemma is_image_file_iff:
  "is_image_file f \<longleftrightarrow>
     (\<exists>stem ext. f = stem @ ext
        \<and> (lower ext = lit ''.png'' \<or> lower ext = lit ''.jpg'' \<or> lower ext = lit ''.jpeg''))"
  unfolding is_image_file_def endswith_iff lower_split by blast

lemma map_of_load_fold:
  "distinct (map fst root) \<Longrightarrow>
   map_of (fold load_step root acc) c =
     (case map_of root c of
        Some (Dir fs) \<Rightarrow> Some (load_category (path_join REFERENCE_IMAGES_DIR c) fs)
      | _ \<Rightarrow> map_of acc c)"
proof (induction root arbitrary: acc)
  case Nil
  then show ?case by simp
next
  case (Cons x root)
  obtain n e where x: "x = (n, e)" by (cases x)
  show ?case using Cons
    apply (simp add: x load_step_def update_conv' split: entry.splits option.splits)
    apply (auto simp: rev_image_eqI map_of_eq_None_iff)
    done
qed

text \<open>
  C8. On an empty root the loader returns the empty mapping. A root with one category
  directory gives one category, with the recognised files of the directory in listing
  order: for two \<open>.jpg\<close> files and one \<open>.txt\<close> file, exactly the two \<open>.jpg\<close> paths.
  A file name is recognised exactly when it ends in an extension that is \<open>.png\<close>,
  \<open>.jpg\<close> or \<open>.jpeg\<close> once lower-cased. A category directory without a recognised
  file is kept, with the empty list.
\<close>

theorem load_reference_images_spec:
  "load_reference_images [] = []
   \<and> load_reference_images [(c, Dir fs)]
       = [(c, map (path_join (path_join REFERENCE_IMAGES_DIR c)) (filter is_image_file fs))]
   \<and> load_reference_images [(c, Dir [a @ lit ''.jpg'', b @ lit ''.jpg'', t @ lit ''.txt''])]
       = [(c, [path_join (path_join REFERENCE_IMAGES_DIR c) (a @ lit ''.jpg''),
               path_join (path_join REFERENCE_IMAGES_DIR c) (b @ lit ''.jpg'')])]
   \<and> (is_image_file f \<longleftrightarrow>
        (\<exists>stem ext. f = stem @ ext
           \<and> (lower ext = lit ''.png'' \<or> lower ext = lit ''.jpg'' \<or> lower ext = lit ''.jpeg'')))
   \<and> (distinct (map fst root) \<and> (c', Dir fs') \<in> set root
        \<and> list_all (\<lambda>f. \<not> is_image_file f) fs'
       \<longrightarrow> map_of (load_reference_images root) c' = Some [])"
proof (intro conjI impI)
  show "load_reference_images [] = []"
    by (simp add: load_reference_images_def)
  show one: "load_reference_images [(c, Dir fs)]
       = [(c, map (path_join (path_join REFERENCE_IMAGES_DIR c)) (filter is_image_file fs))]"
    for fs
    by (simp add: load_reference_images_def load_step_def load_category_eq)
  show "load_reference_images [(c, Dir [a @ lit ''.jpg'', b @ lit ''.jpg'', t @ lit ''.txt''])]
       = [(c, [path_join (path_join REFERENCE_IMAGES_DIR c) (a @ lit ''.jpg''),
               path_join (path_join REFERENCE_IMAGES_DIR c) (b @ lit ''.jpg'')])]"
    unfolding one using is_image_jpg [of a] is_image_jpg [of b] is_image_txt [of t] by simp
  show "is_image_file f \<longleftrightarrow>
        (\<exists>stem ext. f = stem @ ext
           \<and> (lower ext = lit ''.png'' \<or> lower ext = lit ''.jpg'' \<or> lower ext = lit ''.jpeg''))"
    by (rule is_image_file_iff)
next
  assume h: "distinct (map fst root) \<and> (c', Dir fs') \<in> set root
        \<and> list_all (\<lambda>f. \<not> is_image_file f) fs'"
  then have m: "map_of root c' = Some (Dir fs')" by simp
  have f: "filter is_image_file fs' = []"
    using h by (simp add: list_all_iff filter_empty_conv)
  have "map_of (load_reference_images root) c' =
       (case map_of root c' of
          Some (Dir fs) \<Rightarrow> Some (load_category (path_join REFERENCE_IMAGES_DIR c') fs)
        | _ \<Rightarrow> map_of [] c')"
    unfolding load_reference_images_def using h by (intro map_of_load_fold) simp
  also have "\<dots> = Some (load_category (path_join REFERENCE_IMAGES_DIR c') fs')"
    unfolding m by simp
  also have "\<dots> = Some []"
    by (simp add: load_category_eq f)
  finally show "map_of (load_reference_images root) c' = Some []" .
qed

theorem load_reference_images_spec_witness:
  "load_reference_images [(lit ''bags'', Dir [lit ''a.jpg'', lit ''B.jpg'', lit ''notes.txt''])]
     = [(lit ''bags'', [lit ''reference_images/bags/a.jpg'', lit ''reference_images/bags/B.jpg''])]
   \<and> is_image_file (lit ''photo.JPeG'')
   \<and> distinct (map fst sample_store) \<and> (lit ''empty'', Dir [lit ''readme.txt'']) \<in> set sample_store
   \<and> list_all (\<lambda>f. \<not> is_image_file f) [lit ''readme.txt'']
   \<and> map_of (load_reference_images sample_store) (lit ''empty'') = Some []"
proof -
  note t = load_reference_images_spec
      [of "lit ''bags''" "[]" "lit ''a''" "lit ''B''" "lit ''notes''" "lit ''photo.JPeG''" sample_store "lit ''empty''"
          "[lit ''readme.txt'']"]
  have e: "(lit ''photo.JPeG'') = lit ''photo'' @ lit ''.JPeG'' \<and> lower (lit ''.JPeG'') = lit ''.jpeg''"
    by (simp add: lower_def lower_char_def lit_def)
  have d: "distinct (map fst sample_store) \<and> (lit ''empty'', Dir [lit ''readme.txt'']) \<in> set sample_store
     \<and> list_all (\<lambda>f. \<not> is_image_file f) [lit ''readme.txt'']"
    by (simp add: sample_store_def is_image_txt [of "lit ''readme''", simplified lit_def, simplified] lit_def)
  have 1: "load_reference_images [(lit ''bags'', Dir [lit ''a.jpg'', lit ''B.jpg'', lit ''notes.txt''])]
     = [(lit ''bags'', [lit ''reference_images/bags/a.jpg'', lit ''reference_images/bags/B.jpg''])]"
    using t [THEN conjunct2, THEN conjunct2, THEN conjunct1]
    by (simp add: path_join_def REFERENCE_IMAGES_DIR_def lit_def)
  have 2: "is_image_file (lit ''photo.JPeG'')"
    using t [THEN conjunct2, THEN conjunct2, THEN conjunct2, THEN conjunct1] e by blast
  have 3: "map_of (load_reference_images sample_store) (lit ''empty'') = Some []"
    using t [THEN conjunct2, THEN conjunct2, THEN conjunct2, THEN conjunct2] d by (rule mp)
  show ?thesis using 1 2 3 d by blast
qed

section \<open>The listing URL\<close>

lemma match_here_segment:
  assumes "digits u a" "digits u b"
  shows "match_here u (lit ''i.'' @ a @ lit ''.'' @ b @ post)
           = Some (a, b @ takeWhile (is_digit u) post)"
  using assms
  by (simp add: match_here_def digits_def lit_dot lit_i_dot takeWhile_digits_dot
      dropWhile_digits_dot takeWhile_digits_app dot_not_digit)

lemma match_here_SomeD:
  assumes "match_here u s = Some (a, b)"
  shows "\<exists>post. s = lit ''i.'' @ a @ lit ''.'' @ b @ post \<and> digits u a \<and> digits u b
            \<and> (post = [] \<or> \<not> is_digit u (hd post))"
proof -
  from assms obtain r where s: "s = 105 # 46 # r"
    by (auto simp: match_here_def lit_i_dot split: list.splits if_splits)
  from assms s obtain r2 where d: "dropWhile (is_digit u) r = 46 # r2"
    and a: "a = takeWhile (is_digit u) r" "a \<noteq> []"
    and b: "b = takeWhile (is_digit u) r2" "b \<noteq> []"
    by (auto simp: match_here_def lit_i_dot lit_dot split: list.splits if_splits)
  have r: "r = a @ 46 # r2"
    using d a(1) by (metis takeWhile_dropWhile_id)
  have r2: "r2 = b @ dropWhile (is_digit u) r2"
    using b(1) by simp
  have da: "digits u a"
    using a by (auto simp: digits_def list_all_iff dest: set_takeWhileD)
  have db: "digits u b"
    using b by (auto simp: digits_def list_all_iff dest: set_takeWhileD)
  have tl: "dropWhile (is_digit u) r2 = [] \<or> \<not> is_digit u (hd (dropWhile (is_digit u) r2))"
    by (metis hd_dropWhile)
  have "s = lit ''i.'' @ a @ lit ''.'' @ b @ dropWhile (is_digit u) r2"
    using s r r2 by (simp add: lit_i_dot lit_dot)
  with da db tl show ?thesis by blast
qed

lemma re_search_None_iff:
  "re_search u s = None \<longleftrightarrow> (\<forall>pre rest. s = pre @ rest \<longrightarrow> match_here u rest = None)"
proof (induction s)
  case Nil
  then show ?case by (simp add: match_here_def)
next
  case (Cons c cs)
  show ?case
  proof
    assume n: "re_search u (c # cs) = None"
    then have h: "match_here u (c # cs) = None" and t: "re_search u cs = None"
      by (auto split: option.splits)
    show "\<forall>pre rest. c # cs = pre @ rest \<longrightarrow> match_here u rest = None"
    proof (intro allI impI)
      fix pre rest assume e: "c # cs = pre @ rest"
      show "match_here u rest = None"
      proof (cases pre)
        case Nil
        then show ?thesis using e h by simp
      next
        case (Cons p ps)
        then have "cs = ps @ rest" using e by simp
        then show ?thesis using t Cons.IH by blast
      qed
    qed
  next
    assume a: "\<forall>pre rest. c # cs = pre @ rest \<longrightarrow> match_here u rest = None"
    then have h: "match_here u (c # cs) = None" by (metis append_Nil)
    have "\<forall>pre rest. cs = pre @ rest \<longrightarrow> match_here u rest = None"
      using a by (metis append_Cons)
    then have "re_search u cs = None" using Cons.IH by blast
    with h show "re_search u (c # cs) = None" by simp
  qed
qed

lemma re_search_SomeD:
  "re_search u s = Some g \<Longrightarrow>
     \<exists>pre rest. s = pre @ rest \<and> match_here u rest = Some g
       \<and> (\<forall>pre' rest'. s = pre' @ rest' \<and> length pre' < length pre
             \<longrightarrow> match_here u rest' = None)"
proof (induction s)
  case Nil
  then show ?case by simp
next
  case (Cons c cs)
  show ?case
  proof (cases "match_here u (c # cs)")
    case (Some g')
    with Cons.prems have "g' = g" by simp
    with Some have "c # cs = [] @ (c # cs) \<and> match_here u (c # cs) = Some g
        \<and> (\<forall>pre' rest'. c # cs = pre' @ rest' \<and> length pre' < length ([]::pystr)
              \<longrightarrow> match_here u rest' = None)"
      by simp
    then show ?thesis by blast
  next
    case None
    with Cons.prems have "re_search u cs = Some g" by simp
    from Cons.IH[OF this] obtain pre rest where
      e: "cs = pre @ rest" and m: "match_here u rest = Some g"
      and l: "\<forall>pre' rest'. cs = pre' @ rest' \<and> length pre' < length pre
                \<longrightarrow> match_here u rest' = None"
      by blast
    have "\<forall>pre' rest'. c # cs = pre' @ rest' \<and> length pre' < length (c # pre)
            \<longrightarrow> match_here u rest' = None"
    proof (intro allI impI)
      fix pre' rest' assume a: "c # cs = pre' @ rest' \<and> length pre' < length (c # pre)"
      show "match_here u rest' = None"
      proof (cases pre')
        case Nil
        then show ?thesis using a None by simp
      next
        case (Cons p ps)
        then have "cs = ps @ rest' \<and> length ps < length pre" using a by simp
        then show ?thesis using l by blast
      qed
    qed
    moreover have "c # cs = (c # pre) @ rest" using e by simp
    ultimately show ?thesis using m by blast
  qed
qed

lemma segment_at_match:
  "segment_at u pre a b post s \<Longrightarrow>
     s = pre @ (lit ''i.'' @ a @ lit ''.'' @ b @ post)
     \<and> match_here u (lit ''i.'' @ a @ lit ''.'' @ b @ post)
         = Some (a, b @ takeWhile (is_digit u) post)"
  unfolding segment_at_def using match_here_segment [of u a b post] by simp

lemma match_segment_at:
  assumes "s = pre @ rest" "match_here u rest = Some (a, b)"
  shows "\<exists>post. segment_at u pre a b post s \<and> (post = [] \<or> \<not> is_digit u (hd post))"
proof -
  from match_here_SomeD [OF assms(2)] obtain post where
    p: "rest = lit ''i.'' @ a @ lit ''.'' @ b @ post" "digits u a" "digits u b"
       "post = [] \<or> \<not> is_digit u (hd post)"
    by blast
  have "segment_at u pre a b post s"
    unfolding segment_at_def using assms(1) p(1,2,3) by simp
  with p(4) show ?thesis by blast
qed

lemma has_segment_search: "has_segment u s \<longleftrightarrow> re_search u s \<noteq> None"
proof
  assume "has_segment u s"
  then obtain pre a b post where "segment_at u pre a b post s"
    unfolding has_segment_def by blast
  from segment_at_match [OF this] show "re_search u s \<noteq> None"
    unfolding re_search_None_iff by (metis option.distinct(1))
next
  assume "re_search u s \<noteq> None"
  then obtain g where "re_search u s = Some g" by blast
  moreover obtain a b where "g = (a, b)" by (cases g)
  ultimately have "re_search u s = Some (a, b)" by simp
  from re_search_SomeD [OF this] obtain pre rest where
    "s = pre @ rest" "match_here u rest = Some (a, b)" by blast
  from match_segment_at [OF this] show "has_segment u s"
    unfolding has_segment_def by blast
qed

lemma has_segment_not_blank:
  assumes "has_segment u s"
  shows "s \<noteq> [] \<and> strip u s \<noteq> []"
proof -
  from assms obtain pre a b post where "segment_at u pre a b post s"
    unfolding has_segment_def by blast
  then have "s = pre @ 105 # (46 # a @ lit ''.'' @ b @ post)"
    unfolding segment_at_def by (simp add: lit_i_dot)
  then have i: "105 \<in> set s" by simp
  have "\<not> is_space u 105" by (simp add: is_space_def)
  with i have "\<not> list_all (is_space u) s" unfolding list_all_iff by blast
  then have "strip u s \<noteq> []" by (simp add: strip_empty_iff)
  moreover from i have "s \<noteq> []" by auto
  ultimately show ?thesis by simp
qed

lemma parse_listing_url_Inr:
  "parse_listing_url u s = Inr g \<longleftrightarrow> re_search u s = Some g"
proof
  assume "parse_listing_url u s = Inr g"
  then show "re_search u s = Some g"
    unfolding parse_listing_url_def by (simp split: if_splits option.splits)
next
  assume r: "re_search u s = Some g"
  then have "has_segment u s" by (simp add: has_segment_search)
  then have "s \<noteq> [] \<and> strip u s \<noteq> []" by (rule has_segment_not_blank)
  with r show "parse_listing_url u s = Inr g"
    by (simp add: parse_listing_url_def)
qed

text \<open>
  C4. A URL that holds a segment \<^verbatim>\<open>i.<digits>.<digits>\<close> is parsed to the two digit
  runs of such a segment of the URL itself, the second run taken whole (no digit follows
  it). Any other string (empty, blank, or without the pattern) ends the request with one
  of the two URL error messages, before any request or judgment is made. The digits and
  the blanks are those of the interpreter's Unicode tables, whatever they are beyond
  ASCII.
\<close>

theorem parse_listing_url_spec:
  "(has_segment (unicode w) s \<longrightarrow>
      (\<exists>pre shop item post. segment_at (unicode w) pre shop item post s
         \<and> (post = [] \<or> \<not> is_digit (unicode w) (hd post))
         \<and> parse_listing_url (unicode w) s = Inr (shop, item)))
   \<and> (\<not> has_segment (unicode w) s \<longrightarrow>
        (parse_listing_url (unicode w) s = Inl (lit ''Error: Product URL is required.'')
         \<or> parse_listing_url (unicode w) s
             = Inl (lit ''Error: Invalid Shopee URL format. Please try again.''))
        \<and> (\<exists>message. scrape_shopee_reviews w s product_category = (Inr (message, None), [])
              \<and> parse_listing_url (unicode w) s = Inl message))"
proof (intro conjI impI)
  let ?u = "unicode w"
  assume "has_segment ?u s"
  then obtain a b where r: "re_search ?u s = Some (a, b)"
    unfolding has_segment_search by (cases "re_search ?u s") auto
  from re_search_SomeD [OF r] obtain pre rest where
    s: "s = pre @ rest" and m: "match_here ?u rest = Some (a, b)" by blast
  from match_segment_at [OF s m] obtain post where
    "segment_at ?u pre a b post s \<and> (post = [] \<or> \<not> is_digit ?u (hd post))" by blast
  moreover have "parse_listing_url ?u s = Inr (a, b)"
    using r by (simp add: parse_listing_url_Inr)
  ultimately show "\<exists>pre shop item post. segment_at ?u pre shop item post s
         \<and> (post = [] \<or> \<not> is_digit ?u (hd post))
         \<and> parse_listing_url ?u s = Inr (shop, item)"
    by blast
next
  let ?u = "unicode w"
  assume "\<not> has_segment ?u s"
  then have n: "re_search ?u s = None" by (metis has_segment_search)
  then show "parse_listing_url ?u s = Inl (lit ''Error: Product URL is required.'')
         \<or> parse_listing_url ?u s
             = Inl (lit ''Error: Invalid Shopee URL format. Please try again.'')"
    by (simp add: parse_listing_url_def)
  from n have "\<exists>message. parse_listing_url ?u s = Inl message"
    by (simp add: parse_listing_url_def)
  then obtain message where p: "parse_listing_url ?u s = Inl message" ..
  then have "scrape_shopee_reviews w s product_category = (Inr (message, None), [])"
    by (simp add: scrape_shopee_reviews_def)
  with p show "\<exists>message. scrape_shopee_reviews w s product_category = (Inr (message, None), [])
              \<and> parse_listing_url ?u s = Inl message"
    by blast
qed

lemma sample_unicode: "unicode sample_world = unicode14"
  by (simp add: sample_world_def)

lemma sample_url_segment:
  "segment_at unicode14 (lit ''https://example.co.id/-'') (lit ''111'') (lit ''222'') [] sample_url"
  by (simp add: segment_at_def sample_url_def digits_def is_digit_def lit_def)

lemma blank_no_segment: "\<not> has_segment unicode14 (lit ''  '')"
  unfolding has_segment_search by code_simp

text \<open>The sample URL; a blank URL; a URL whose digits are Arabic-Indic; a URL made of a
  no-break space and a next-line character.\<close>

theorem parse_listing_url_spec_witness:
  "has_segment (unicode sample_world) sample_url
   \<and> parse_listing_url (unicode sample_world) sample_url = Inr (lit ''111'', lit ''222'')
   \<and> \<not> has_segment (unicode sample_world) (lit ''  '')
   \<and> parse_listing_url (unicode sample_world) (lit ''  '')
       = Inl (lit ''Error: Product URL is required.'')
   \<and> scrape_shopee_reviews sample_world (lit ''  '') (lit ''bags'')
       = (Inr (lit ''Error: Product URL is required.'', None), [])
   \<and> parse_listing_url (unicode sample_world) (lit ''x-i.'' @ [0x661, 0x662, 46, 0x663, 0x664])
       = Inr ([0x661, 0x662], [0x663, 0x664])
   \<and> parse_listing_url (unicode sample_world) [0xA0, 0x85]
       = Inl (lit ''Error: Product URL is required.'')"
proof -
  have h: "has_segment (unicode sample_world) sample_url"
    unfolding has_segment_def sample_unicode using sample_url_segment by blast
  have p: "parse_listing_url (unicode sample_world) sample_url = Inr (lit ''111'', lit ''222'')"
    by code_simp
  have b: "\<not> has_segment (unicode sample_world) (lit ''  '')"
    unfolding sample_unicode by (rule blank_no_segment)
  have q: "parse_listing_url (unicode sample_world) (lit ''  '')
       = Inl (lit ''Error: Product URL is required.'')"
    by code_simp
  have "\<exists>message. scrape_shopee_reviews sample_world (lit ''  '') (lit ''bags'')
            = (Inr (message, None), [])
          \<and> parse_listing_url (unicode sample_world) (lit ''  '') = Inl message"
    using parse_listing_url_spec [of sample_world "lit ''  ''" "lit ''bags''"] b
    by blast
  with q have r: "scrape_shopee_reviews sample_world (lit ''  '') (lit ''bags'')
       = (Inr (lit ''Error: Product URL is required.'', None), [])"
    by auto
  have a: "parse_listing_url (unicode sample_world) (lit ''x-i.'' @ [0x661, 0x662, 46, 0x663, 0x664])
       = Inr ([0x661, 0x662], [0x663, 0x664])"
    by (simp add: parse_listing_url_def sample_unicode strip_def is_space_def match_here_def
        is_digit_def unicode14_def unicode14_decimal_def unicode14_space_def lit_def)
  have n: "parse_listing_url (unicode sample_world) [0xA0, 0x85]
       = Inl (lit ''Error: Product URL is required.'')"
    by (simp add: parse_listing_url_def sample_unicode strip_def is_space_def
        unicode14_def unicode14_space_def)
  from h p b q r a n show ?thesis by (intro conjI)
qed

text \<open>
  C10. When a URL holds several segments, the parser returns the pair of the leftmost
  one: the segment that no other segment starts before, with its item run taken whole.
\<close>

theorem parse_listing_url_leftmost:
  assumes seg: "segment_at u pre shop item post s"
    and whole: "post = [] \<or> \<not> is_digit u (hd post)"
    and leftmost: "\<forall>pre' shop' item' post'.
                     segment_at u pre' shop' item' post' s \<longrightarrow> length pre \<le> length pre'"
  shows "parse_listing_url u s = Inr (shop, item)"
proof -
  let ?rest = "lit ''i.'' @ shop @ lit ''.'' @ item @ post"
  have s: "s = pre @ ?rest" and ds: "digits u shop" and di: "digits u item"
    using seg by (simp_all add: segment_at_def)
  have "takeWhile (is_digit u) post = []"
    using whole by (cases post) auto
  then have here: "match_here u ?rest = Some (shop, item)"
    using match_here_segment [OF ds di, of post] by simp
  have "has_segment u s" unfolding has_segment_def using seg by blast
  then obtain a b where r: "re_search u s = Some (a, b)"
    unfolding has_segment_search by (cases "re_search u s") auto
  from re_search_SomeD [OF r] obtain pre0 rest0 where
    s0: "s = pre0 @ rest0" and m0: "match_here u rest0 = Some (a, b)"
    and first: "\<forall>pre' rest'. s = pre' @ rest' \<and> length pre' < length pre0
                  \<longrightarrow> match_here u rest' = None"
    by blast
  from match_segment_at [OF s0 m0] have "\<exists>post0. segment_at u pre0 a b post0 s"
    by blast
  with leftmost have le: "length pre \<le> length pre0" by blast
  have "\<not> length pre < length pre0"
    using first s here by (metis option.distinct(1))
  with le have "length pre = length pre0" by simp
  with s s0 have "pre = pre0 \<and> ?rest = rest0"
    by (metis append_eq_append_conv)
  with here m0 have "(a, b) = (shop, item)" by simp
  with r show ?thesis by (simp add: parse_listing_url_Inr)
qed

text \<open>Two segments in ASCII digits; and a segment in Arabic-Indic digits before one in
  ASCII digits.\<close>

theorem parse_listing_url_leftmost_witness:
  "segment_at unicode14 (lit ''-'') (lit ''1'') (lit ''2'') (lit ''/i.3.4'') (lit ''-i.1.2/i.3.4'')
   \<and> segment_at unicode14 (lit ''-i.1.2/'') (lit ''3'') (lit ''4'') [] (lit ''-i.1.2/i.3.4'')
   \<and> parse_listing_url unicode14 (lit ''-i.1.2/i.3.4'') = Inr (lit ''1'', lit ''2'')
   \<and> segment_at unicode14 (lit ''-'') [0x661] [0x662] (lit ''/i.3.4'')
        (lit ''-i.'' @ [0x661, 46, 0x662] @ lit ''/i.3.4'')
   \<and> parse_listing_url unicode14 (lit ''-i.'' @ [0x661, 46, 0x662] @ lit ''/i.3.4'')
       = Inr ([0x661], [0x662])"
proof -
  have a: "segment_at unicode14 (lit ''-'') (lit ''1'') (lit ''2'') (lit ''/i.3.4'') (lit ''-i.1.2/i.3.4'')"
    by (simp add: segment_at_def digits_def is_digit_def lit_def)
  have b: "segment_at unicode14 (lit ''-i.1.2/'') (lit ''3'') (lit ''4'') [] (lit ''-i.1.2/i.3.4'')"
    by (simp add: segment_at_def digits_def is_digit_def lit_def)
  have w: "lit ''/i.3.4'' = [] \<or> \<not> is_digit unicode14 (hd (lit ''/i.3.4''))"
    by (simp add: is_digit_def lit_def)
  have l: "\<forall>pre' shop' item' post'.
             segment_at unicode14 pre' shop' item' post' (lit ''-'' @ rest)
               \<longrightarrow> length (lit ''-'') \<le> length pre'" for rest
  proof (intro allI impI)
    fix pre' shop' item' post'
    assume "segment_at unicode14 pre' shop' item' post' (lit ''-'' @ rest)"
    then have e: "lit ''-'' @ rest = pre' @ lit ''i.'' @ shop' @ lit ''.'' @ item' @ post'"
      by (simp add: segment_at_def)
    show "length (lit ''-'') \<le> length pre'"
    proof (cases pre')
      case Nil
      with e show ?thesis by (simp add: lit_def)
    next
      case (Cons p ps)
      then show ?thesis by (simp add: lit_def)
    qed
  qed
  have l1: "\<forall>pre' shop' item' post'.
             segment_at unicode14 pre' shop' item' post' (lit ''-i.1.2/i.3.4'')
               \<longrightarrow> length (lit ''-'') \<le> length pre'"
    using l [of "lit ''i.1.2/i.3.4''"] by (simp add: lit_def)
  have c: "segment_at unicode14 (lit ''-'') [0x661] [0x662] (lit ''/i.3.4'')
        (lit ''-i.'' @ [0x661, 46, 0x662] @ lit ''/i.3.4'')"
    by (simp add: segment_at_def digits_def is_digit_def lit_def unicode14_def
        unicode14_decimal_def)
  have l2: "\<forall>pre' shop' item' post'.
             segment_at unicode14 pre' shop' item' post'
                 (lit ''-i.'' @ [0x661, 46, 0x662] @ lit ''/i.3.4'')
               \<longrightarrow> length (lit ''-'') \<le> length pre'"
    using l [of "lit ''i.'' @ [0x661, 46, 0x662] @ lit ''/i.3.4''"] by (simp add: lit_def)
  from a b parse_listing_url_leftmost [OF a w l1] c parse_listing_url_leftmost [OF c w l2]
  show ?thesis by (intro conjI)
qed

section \<open>The judge\<close>

lemma compare_with_reference_found:
  assumes "map_of (load_reference_images (store_at w k)) product_category = Some (reference # others)"
  shows "compare_with_reference w k url product_category =
     (case judge_response (unicode w) (service_at w k reference url) of
        Inr r \<Rightarrow> r
      | Inl e \<Rightarrow> (lit ''Error'', Int0),
      [ScanStore (load_reference_images (store_at w k)), CallService reference url])"
  using assms by (simp add: compare_with_reference_def Let_def split: sum.splits)

lemma sample_reference:
  "load_reference_images sample_store
     = [(lit ''bags'', [lit ''reference_images/bags/ref.jpg'']), (lit ''empty'', [])]"
  by code_simp

text \<open>
  C6. When the category has no entry in the mapping, or an empty one, the judge returns
  the error result with confidence 0 at once: the call scans the store and makes no call
  of the judgment service.
\<close>

theorem compare_without_reference:
  assumes "map_of (load_reference_images (store_at w k)) product_category = None
           \<or> map_of (load_reference_images (store_at w k)) product_category = Some []"
  shows "compare_with_reference w k url product_category =
           ((lit ''Error: No reference images found for this category'', Int0),
            [ScanStore (load_reference_images (store_at w k))])
         \<and> (\<forall>reference candidate.
               CallService reference candidate
                 \<notin> set (snd (compare_with_reference w k url product_category)))"
proof -
  have "compare_with_reference w k url product_category =
           ((lit ''Error: No reference images found for this category'', Int0),
            [ScanStore (load_reference_images (store_at w k))])"
    using assms by (auto simp: compare_with_reference_def Let_def)
  then show ?thesis by simp
qed

theorem compare_without_reference_witness:
  "map_of (load_reference_images (store_at sample_world 0)) (lit ''shoes'') = None
   \<and> compare_with_reference sample_world 0 (cdn_url (lit ''A'')) (lit ''shoes'') =
        ((lit ''Error: No reference images found for this category'', Int0),
         [ScanStore [(lit ''bags'', [lit ''reference_images/bags/ref.jpg'']), (lit ''empty'', [])]])
   \<and> map_of (load_reference_images (store_at sample_world 0)) (lit ''empty'') = Some []
   \<and> compare_with_reference sample_world 0 (cdn_url (lit ''A'')) (lit ''empty'') =
        ((lit ''Error: No reference images found for this category'', Int0),
         [ScanStore [(lit ''bags'', [lit ''reference_images/bags/ref.jpg'']), (lit ''empty'', [])]])"
proof -
  have s: "load_reference_images (store_at sample_world 0)
             = [(lit ''bags'', [lit ''reference_images/bags/ref.jpg'']), (lit ''empty'', [])]"
    by (simp add: sample_world_def sample_reference)
  have n: "map_of (load_reference_images (store_at sample_world 0)) (lit ''shoes'') = None"
    unfolding s by (simp add: lit_def)
  have e: "map_of (load_reference_images (store_at sample_world 0)) (lit ''empty'') = Some []"
    unfolding s by (simp add: lit_def)
  from compare_without_reference [OF disjI1 [OF n], of "cdn_url (lit ''A'')"]
       compare_without_reference [OF disjI2 [OF e], of "cdn_url (lit ''A'')"] n e
  show ?thesis unfolding s by simp
qed

text \<open>
  C1, as the code has it. For a response that carries a text, the judge returns the
  trimmed text itself as the classification, with confidence 1.0 when the trimmed text is
  exactly \<open>Pass\<close> and 0.0 otherwise; so the result is (\<open>Pass\<close>, 1.0) if and only if
  the trimmed text is \<open>Pass\<close>. No other text is rewritten to \<open>Not Pass\<close>.
\<close>

theorem judge_returns_trimmed_text:
  assumes "map_of (load_reference_images (store_at w k)) product_category = Some (reference # others)"
    and "service_at w k reference url = Inr (Some content # choices)"
  shows "fst (compare_with_reference w k url product_category)
           = (strip (unicode w) content,
              if strip (unicode w) content = lit ''Pass'' then Float1 else Float0)
         \<and> (fst (compare_with_reference w k url product_category) = (lit ''Pass'', Float1)
              \<longleftrightarrow> strip (unicode w) content = lit ''Pass'')"
  using assms
  by (simp add: compare_with_reference_found [OF assms(1)] judge_response_def Let_def)

lemma sample_bags:
  "map_of (load_reference_images (store_at sample_world k)) (lit ''bags'')
     = Some (lit ''reference_images/bags/ref.jpg'' # [])"
  by (simp add: sample_world_def sample_reference lit_def)

lemma padded_bags:
  "map_of (load_reference_images (store_at padded_pass_world k)) (lit ''bags'')
     = Some (lit ''reference_images/bags/ref.jpg'' # [])"
  by (simp add: padded_pass_world_def sample_world_def sample_reference lit_def)

lemma strip_pass: "strip unicode14 (lit ''Pass'') = lit ''Pass''"
  by (simp add: strip_def is_space_def lit_def)

lemma strip_padded_pass: "strip unicode14 ([0xA0] @ lit ''Pass'' @ [0x85]) = lit ''Pass''"
  by (simp add: strip_def is_space_def lit_def unicode14_def unicode14_space_def)

lemma strip_garbage: "strip unicode14 (lit '' garbage '') = lit ''garbage''"
  by (simp add: strip_def is_space_def lit_def)

lemma strip_error: "strip unicode14 (lit ''Error'') = lit ''Error''"
  by (simp add: strip_def is_space_def lit_def)

text \<open>The sample service on the image \<open>A\<close>; and the answer \<open>Pass\<close> between a
  no-break space and a next-line character.\<close>

theorem judge_returns_trimmed_text_witness:
  "map_of (load_reference_images (store_at sample_world 0)) (lit ''bags'')
     = Some (lit ''reference_images/bags/ref.jpg'' # [])
   \<and> service_at sample_world 0 (lit ''reference_images/bags/ref.jpg'') (cdn_url (lit ''A''))
       = Inr (Some (lit ''Pass'') # [])
   \<and> fst (compare_with_reference sample_world 0 (cdn_url (lit ''A'')) (lit ''bags''))
       = (lit ''Pass'', Float1)
   \<and> service_at padded_pass_world 0 (lit ''reference_images/bags/ref.jpg'') (cdn_url (lit ''A''))
       = Inr (Some ([0xA0] @ lit ''Pass'' @ [0x85]) # [])
   \<and> fst (compare_with_reference padded_pass_world 0 (cdn_url (lit ''A'')) (lit ''bags''))
       = (lit ''Pass'', Float1)"
proof -
  have c: "service_at sample_world 0 (lit ''reference_images/bags/ref.jpg'') (cdn_url (lit ''A''))
       = Inr (Some (lit ''Pass'') # [])"
    by (simp add: sample_world_def)
  have d: "service_at padded_pass_world 0 (lit ''reference_images/bags/ref.jpg'')
         (cdn_url (lit ''A''))
       = Inr (Some ([0xA0] @ lit ''Pass'' @ [0x85]) # [])"
    by (simp add: padded_pass_world_def)
  have u: "unicode sample_world = unicode14" "unicode padded_pass_world = unicode14"
    by (simp_all add: padded_pass_world_def sample_world_def)
  have 1: "fst (compare_with_reference sample_world 0 (cdn_url (lit ''A'')) (lit ''bags''))
       = (lit ''Pass'', Float1)"
    using judge_returns_trimmed_text [OF sample_bags c, unfolded u strip_pass] by simp
  have 2: "fst (compare_with_reference padded_pass_world 0 (cdn_url (lit ''A'')) (lit ''bags''))
       = (lit ''Pass'', Float1)"
    using judge_returns_trimmed_text [OF padded_bags d, unfolded u strip_padded_pass] by simp
  from sample_bags [of 0] c 1 d 2 show ?thesis by (intro conjI)
qed

text \<open>
  C1 as stated fails: the sample service answers \<open>garbage\<close> for the image \<open>B\<close>, and
  the judge returns the classification \<open>garbage\<close>, not \<open>Not Pass\<close>; a service that
  answers \<open>Error\<close> gets the classification \<open>Error\<close>.
\<close>

theorem judge_not_pass_counterexample:
  "fst (compare_with_reference sample_world 1 (cdn_url (lit ''B'')) (lit ''bags''))
     = (lit ''garbage'', Float0)
   \<and> fst (fst (compare_with_reference sample_world 1 (cdn_url (lit ''B'')) (lit ''bags'')))
       \<noteq> lit ''Not Pass''
   \<and> fst (compare_with_reference error_text_world 0 (cdn_url (lit ''A'')) (lit ''bags''))
       = (lit ''Error'', Float0)"
proof -
  have b: "cdn_url (lit ''B'') \<noteq> cdn_url (lit ''A'')"
    by (simp add: cdn_url_def lit_def)
  have s: "service_at sample_world k (lit ''reference_images/bags/ref.jpg'') (cdn_url (lit ''B''))
             = Inr [Some (lit '' garbage '')]" for k
    by (simp add: sample_world_def b)
  have u: "unicode sample_world = unicode14" "unicode error_text_world = unicode14"
    by (simp_all add: error_text_world_def sample_world_def)
  have g: "lit ''garbage'' \<noteq> lit ''Pass''" "lit ''garbage'' \<noteq> lit ''Not Pass''"
    "lit ''Error'' \<noteq> lit ''Pass''"
    by (simp_all add: lit_def)
  have 1: "fst (compare_with_reference sample_world 1 (cdn_url (lit ''B'')) (lit ''bags''))
     = (lit ''garbage'', Float0)"
    by (simp add: compare_with_reference_found [OF sample_bags] s judge_response_def Let_def
        u strip_garbage g)
  have r: "map_of (load_reference_images (store_at error_text_world 0)) (lit ''bags'')
     = Some (lit ''reference_images/bags/ref.jpg'' # [])"
    by (simp add: error_text_world_def sample_world_def sample_reference lit_def)
  have t: "service_at error_text_world 0 (lit ''reference_images/bags/ref.jpg'')
             (cdn_url (lit ''A''))
             = Inr [Some (lit ''Error'')]"
    by (simp add: error_text_world_def)
  have 2: "fst (compare_with_reference error_text_world 0 (cdn_url (lit ''A'')) (lit ''bags''))
     = (lit ''Error'', Float0)"
    by (simp add: compare_with_reference_found [OF r] t judge_response_def Let_def u
        strip_error g)
  from 1 2 g show ?thesis by simp
qed

section \<open>The loop over the images\<close>

lemma judge_images_Cons:
  "fst (judge_images w product_category k (img_id # img_ids)) =
     \<lparr>image_url = cdn_url img_id,
      classification = fst (fst (compare_with_reference w k (cdn_url img_id) product_category)),
      confidence = snd (fst (compare_with_reference w k (cdn_url img_id) product_category))\<rparr>
     # fst (judge_images w product_category (Suc k) img_ids)"
  by (simp split: prod.splits)

lemma judge_images_length:
  "length (fst (judge_images w product_category k img_ids)) = length img_ids"
proof (induction img_ids arbitrary: k)
  case Nil
  then show ?case by simp
next
  case (Cons img_id img_ids)
  then show ?case by (simp only: judge_images_Cons list.size)
qed

lemma judge_images_nth:
  "j < length img_ids \<Longrightarrow>
   fst (judge_images w product_category k img_ids) ! j =
     \<lparr>image_url = cdn_url (img_ids ! j),
      classification = fst (fst (compare_with_reference w (k + j) (cdn_url (img_ids ! j)) product_category)),
      confidence = snd (fst (compare_with_reference w (k + j) (cdn_url (img_ids ! j)) product_category))\<rparr>"
proof (induction img_ids arbitrary: k j)
  case Nil
  then show ?case by simp
next
  case (Cons img_id img_ids)
  show ?case
  proof (cases j)
    case 0
    then show ?thesis by (simp only: judge_images_Cons nth_Cons_0 add_0_right)
  next
    case (Suc i)
    with Cons.prems have "i < length img_ids" by simp
    from Cons.IH [OF this, of "Suc k"] Suc show ?thesis
      by (simp only: judge_images_Cons nth_Cons_Suc add_Suc_right add_Suc)
  qed
qed

text \<open>
  C2. When the judgment service raises for the \<open>i\<close>-th image of a batch, the judge
  turns the exception into the result (\<open>Error\<close>, 0) for that image. The loop goes on:
  the batch has one row per image, the row of the failed image is its \<open>Error\<close> row, and
  every row, before and after it, is the judge's own result for its image.
\<close>

theorem judgment_failure_absorbed:
  assumes "i < length img_ids"
    and "map_of (load_reference_images (store_at w (k + i))) product_category
           = Some (reference # others)"
    and "service_at w (k + i) reference (cdn_url (img_ids ! i)) = Inl e"
  shows "compare_with_reference w (k + i) (cdn_url (img_ids ! i)) product_category
           = ((lit ''Error'', Int0),
              [ScanStore (load_reference_images (store_at w (k + i))),
               CallService reference (cdn_url (img_ids ! i))])
       \<and> length (fst (judge_images w product_category k img_ids)) = length img_ids
       \<and> fst (judge_images w product_category k img_ids) ! i
           = \<lparr>image_url = cdn_url (img_ids ! i), classification = lit ''Error'', confidence = Int0\<rparr>
       \<and> (\<forall>j < length img_ids.
             fst (judge_images w product_category k img_ids) ! j
               = \<lparr>image_url = cdn_url (img_ids ! j),
                  classification =
                    fst (fst (compare_with_reference w (k + j) (cdn_url (img_ids ! j)) product_category)),
                  confidence =
                    snd (fst (compare_with_reference w (k + j) (cdn_url (img_ids ! j)) product_category))\<rparr>)"
proof -
  have c: "compare_with_reference w (k + i) (cdn_url (img_ids ! i)) product_category
           = ((lit ''Error'', Int0),
              [ScanStore (load_reference_images (store_at w (k + i))),
               CallService reference (cdn_url (img_ids ! i))])"
    by (simp add: compare_with_reference_found [OF assms(2)] assms(3) judge_response_def)
  have "fst (judge_images w product_category k img_ids) ! i
           = \<lparr>image_url = cdn_url (img_ids ! i), classification = lit ''Error'', confidence = Int0\<rparr>"
    by (simp add: judge_images_nth [OF assms(1)] c)
  with c show ?thesis
    by (simp add: judge_images_length judge_images_nth)
qed

theorem judgment_failure_absorbed_witness:
  "(0::nat) < length [lit ''A'', lit ''B'']
   \<and> map_of (load_reference_images (store_at failing_service_world (0 + 0))) (lit ''bags'')
       = Some (lit ''reference_images/bags/ref.jpg'' # [])
   \<and> service_at failing_service_world (0 + 0) (lit ''reference_images/bags/ref.jpg'')
         (cdn_url ([lit ''A'', lit ''B''] ! 0)) = Inl (ServiceError (lit ''overloaded''))
   \<and> fst (judge_images failing_service_world (lit ''bags'') 0 [lit ''A'', lit ''B'']) ! 0
       = \<lparr>image_url = cdn_url ([lit ''A'', lit ''B''] ! 0), classification = lit ''Error'', confidence = Int0\<rparr>
   \<and> fst (judge_images failing_service_world (lit ''bags'') 0 [lit ''A'', lit ''B''])
       = [\<lparr>image_url = lit ''https://cf.shopee.co.id/file/A'', classification = lit ''Error'',
            confidence = Int0\<rparr>,
          \<lparr>image_url = lit ''https://cf.shopee.co.id/file/B'', classification = lit ''Pass'',
            confidence = Float1\<rparr>]"
proof -
  have l: "(0::nat) < length [lit ''A'', lit ''B'']" by simp
  have r: "map_of (load_reference_images (store_at failing_service_world (0 + 0))) (lit ''bags'')
       = Some (lit ''reference_images/bags/ref.jpg'' # [])"
    by (simp add: failing_service_world_def sample_world_def sample_reference lit_def)
  have s: "service_at failing_service_world (0 + 0) (lit ''reference_images/bags/ref.jpg'')
         (cdn_url ([lit ''A'', lit ''B''] ! 0)) = Inl (ServiceError (lit ''overloaded''))"
    by (simp add: failing_service_world_def)
  have all: "fst (judge_images failing_service_world (lit ''bags'') 0 [lit ''A'', lit ''B''])
       = [\<lparr>image_url = lit ''https://cf.shopee.co.id/file/A'', classification = lit ''Error'',
            confidence = Int0\<rparr>,
          \<lparr>image_url = lit ''https://cf.shopee.co.id/file/B'', classification = lit ''Pass'',
            confidence = Float1\<rparr>]"
    by code_simp
  from judgment_failure_absorbed [OF l r s]
  have "fst (judge_images failing_service_world (lit ''bags'') 0 [lit ''A'', lit ''B'']) ! 0
       = \<lparr>image_url = cdn_url ([lit ''A'', lit ''B''] ! 0), classification = lit ''Error'', confidence = Int0\<rparr>"
    by blast
  with l r s all show ?thesis by (intro conjI)
qed

section \<open>The request as a whole\<close>

lemma scrape_parsed:
  "parse_listing_url (unicode w) product_url = Inr (shop_id, item_id) \<Longrightarrow>
   scrape_shopee_reviews w product_url product_category =
     (handle_request_errors (fst (scrape_try w shop_id item_id product_category)),
      snd (scrape_try w shop_id item_id product_category))"
  by (simp add: scrape_shopee_reviews_def split: prod.splits)












section \<open>The scans of the reference store\<close>

lemma scans_append: "scans (evs @ evs') = scans evs @ scans evs'"
  by (induction evs rule: scans.induct) simp_all

lemma scans_compare:
  "scans (snd (compare_with_reference w k url product_category))
     = [load_reference_images (store_at w k)]"
  by (simp add: compare_with_reference_def Let_def split: list.splits option.splits sum.splits)

lemma judge_images_snd_Cons:
  "snd (judge_images w product_category k (img_id # img_ids)) =
     snd (compare_with_reference w k (cdn_url img_id) product_category)
     @ snd (judge_images w product_category (Suc k) img_ids)"
  by (simp split: prod.splits)

lemma scans_judge_images_Cons:
  "scans (snd (judge_images w product_category k (img_id # img_ids))) =
     load_reference_images (store_at w k)
     # scans (snd (judge_images w product_category (Suc k) img_ids))"
  by (simp only: judge_images_snd_Cons scans_append scans_compare append_Cons append_Nil)

lemma scans_judge_images_length:
  "length (scans (snd (judge_images w product_category k img_ids))) = length img_ids"
proof (induction img_ids arbitrary: k)
  case Nil
  then show ?case by simp
next
  case (Cons img_id img_ids)
  then show ?case by (simp only: scans_judge_images_Cons list.size)
qed

lemma scans_judge_images_nth:
  "j < length img_ids \<Longrightarrow>
   scans (snd (judge_images w product_category k img_ids)) ! j
     = load_reference_images (store_at w (k + j))"
proof (induction img_ids arbitrary: k j)
  case Nil
  then show ?case by simp
next
  case (Cons img_id img_ids)
  show ?case
  proof (cases j)
    case 0
    then show ?thesis by (simp only: scans_judge_images_Cons nth_Cons_0 add_0_right)
  next
    case (Suc i)
    with Cons.prems have "i < length img_ids" by simp
    from Cons.IH [OF this, of "Suc k"] Suc show ?thesis
      by (simp only: scans_judge_images_Cons nth_Cons_Suc add_Suc_right add_Suc)
  qed
qed

text \<open>
  C9, as the code has it. The judge calls \<^verbatim>\<open>load_reference_images\<close> itself
  (line 37), so a batch scans the reference store once per image, and the \<open>j\<close>-th judge
  call works with the mapping of the store as it is at that moment. The calls see one and
  the same mapping when the store stays as it is during the batch.
\<close>

theorem store_scanned_per_image:
  "length (scans (snd (judge_images w product_category k img_ids))) = length img_ids
   \<and> (\<forall>j < length img_ids.
         scans (snd (judge_images w product_category k img_ids)) ! j
           = load_reference_images (store_at w (k + j)))
   \<and> ((\<forall>j < length img_ids. store_at w (k + j) = st) \<longrightarrow>
         scans (snd (judge_images w product_category k img_ids))
           = replicate (length img_ids) (load_reference_images st))"
proof (intro conjI impI allI)
  show "length (scans (snd (judge_images w product_category k img_ids))) = length img_ids"
    by (rule scans_judge_images_length)
next
  fix j assume "j < length img_ids"
  then show "scans (snd (judge_images w product_category k img_ids)) ! j
           = load_reference_images (store_at w (k + j))"
    by (rule scans_judge_images_nth)
next
  assume same: "\<forall>j < length img_ids. store_at w (k + j) = st"
  show "scans (snd (judge_images w product_category k img_ids))
           = replicate (length img_ids) (load_reference_images st)"
  proof (rule nth_equalityI)
    show "length (scans (snd (judge_images w product_category k img_ids)))
            = length (replicate (length img_ids) (load_reference_images st))"
      by (simp add: scans_judge_images_length)
  next
    fix j assume "j < length (scans (snd (judge_images w product_category k img_ids)))"
    then have j: "j < length img_ids" by (simp add: scans_judge_images_length)
    with same have "store_at w (k + j) = st" by blast
    with j show "scans (snd (judge_images w product_category k img_ids)) ! j
            = replicate (length img_ids) (load_reference_images st) ! j"
      by (simp add: scans_judge_images_nth)
  qed
qed

theorem store_scanned_per_image_witness:
  "length (scans (snd (judge_images sample_world (lit ''bags'') 0 [lit ''A'', lit ''B''])))
     = length [lit ''A'', lit ''B'']
   \<and> scans (snd (judge_images sample_world (lit ''bags'') 0 [lit ''A'', lit ''B'']))
       = replicate (length [lit ''A'', lit ''B'']) (load_reference_images sample_store)
   \<and> scans (snd (judge_images changing_store_world (lit ''bags'') 0 [lit ''A'', lit ''B''])) ! 1
       = load_reference_images (store_at changing_store_world (0 + 1))
   \<and> load_reference_images (store_at changing_store_world (0 + 1)) = []"
proof -
  note t = store_scanned_per_image [of sample_world "lit ''bags''" 0 "[lit ''A'', lit ''B'']"
      sample_store]
  have same: "\<forall>j < length [lit ''A'', lit ''B'']. store_at sample_world (0 + j) = sample_store"
    by (simp add: sample_world_def)
  have 1: "length (scans (snd (judge_images sample_world (lit ''bags'') 0 [lit ''A'', lit ''B''])))
     = length [lit ''A'', lit ''B'']"
    using t by blast
  have 2: "scans (snd (judge_images sample_world (lit ''bags'') 0 [lit ''A'', lit ''B'']))
       = replicate (length [lit ''A'', lit ''B'']) (load_reference_images sample_store)"
    using t same by blast
  have "(1::nat) < length [lit ''A'', lit ''B'']" by simp
  with store_scanned_per_image [of changing_store_world "lit ''bags''" 0 "[lit ''A'', lit ''B'']"]
  have 3: "scans (snd (judge_images changing_store_world (lit ''bags'') 0 [lit ''A'', lit ''B''])) ! 1
       = load_reference_images (store_at changing_store_world (0 + 1))"
    by blast
  have 4: "load_reference_images (store_at changing_store_world (0 + 1)) = []"
    by (simp add: changing_store_world_def load_reference_images_def)
  from 1 2 3 4 show ?thesis by (intro conjI)
qed

text \<open>
  C9 as stated fails: in one request the store is emptied after the first image is
  judged; the run scans the store twice and the two judge calls see two mappings, so the
  first image is judged against the reference and the second is not.
\<close>

theorem store_rescanned_counterexample:
  "snd (scrape_shopee_reviews changing_store_world sample_url (lit ''bags''))
     = [HttpGet (lit ''https://shopee.co.id/-i.111.222''),
        HttpGet (lit ''https://shopee.co.id/api/v4/pdp/get_pc?shop_id=111&item_id=222''),
        ScanStore [(lit ''bags'', [lit ''reference_images/bags/ref.jpg'']), (lit ''empty'', [])],
        CallService (lit ''reference_images/bags/ref.jpg'') (lit ''https://cf.shopee.co.id/file/A''),
        ScanStore [],
        WriteCsv (lit ''authenticity_check.csv'')
          [[lit ''image_url'', lit ''authenticity_result'', lit ''confidence''],
           [lit ''https://cf.shopee.co.id/file/A'', lit ''Pass'', lit ''100.00%''],
           [lit ''https://cf.shopee.co.id/file/B'',
            lit ''Error: No reference images found for this category'', lit ''0.00%'']]]
   \<and> scans (snd (scrape_shopee_reviews changing_store_world sample_url (lit ''bags'')))
       = [[(lit ''bags'', [lit ''reference_images/bags/ref.jpg'']), (lit ''empty'', [])], []]"
  by code_simp

section \<open>The images of the listing and the report\<close>





lemma scrape_try_fetched:
  assumes "http_get w 0 (page_url shop_id item_id) = Inr page"
    and "http_get w 1 (api_url shop_id item_id) = Inr response"
  shows "scrape_try w shop_id item_id product_category =
           (fst (process_response w product_category response),
            [HttpGet (page_url shop_id item_id), HttpGet (api_url shop_id item_id)]
            @ snd (process_response w product_category response))"
  using assms by (simp add: scrape_try_def split: prod.splits)

lemma process_response_images:
  assumes "status_code response = 200"
    and "json_body response = Inr product_data"
    and "product_images_of product_data = Inr product_images"
  shows "process_response w product_category response =
           (if \<not> truthy product_images
            then (Inr (lit ''Error: No product images found.'', None), [])
            else case image_ids w product_images of
                   Inl e \<Rightarrow> (Inl e, [])
                 | Inr img_ids \<Rightarrow> judge_and_report w product_category img_ids)"
  using assms by (simp add: process_response_def)

text \<open>
  When the traversal of line 139 ends in a value that counts as false (a key of the path
  is absent, or the list is empty), the request ends with the message of line 142 after
  the two GETs: no scan, no call of the judgment service, no CSV file.
\<close>

lemma no_images_found:
  assumes "parse_listing_url (unicode w) product_url = Inr (shop_id, item_id)"
    and "http_get w 0 (page_url shop_id item_id) = Inr page"
    and "http_get w 1 (api_url shop_id item_id) = Inr response"
    and "status_code response = 200"
    and "json_body response = Inr product_data"
    and "product_images_of product_data = Inr product_images"
    and "\<not> truthy product_images"
  shows "scrape_shopee_reviews w product_url product_category =
           (Inr (lit ''Error: No product images found.'', None),
            [HttpGet (page_url shop_id item_id), HttpGet (api_url shop_id item_id)])"
  using assms(7)
  by (simp add: scrape_parsed [OF assms(1)] scrape_try_fetched [OF assms(2,3)]
      process_response_images [OF assms(4,5,6)])

lemma absent_path_no_images:
  "product_images_of (JObj []) = Inr (JArr [])"
  "product_images_of (JObj [(lit ''data'', JObj [])]) = Inr (JArr [])"
  "product_images_of (listing_body (JArr [])) = Inr (JArr [])"
  by (simp_all add: product_images_of_def listing_body_def)

text \<open>
  C5 fails on the code where the path is missing because a value on the way is not an
  object: for the body \<^verbatim>\<open>{"data": null}\<close>, \<^verbatim>\<open>.get('data', {})\<close> returns
  \<^verbatim>\<open>None\<close>, the next \<^verbatim>\<open>.get\<close> raises \<^verbatim>\<open>AttributeError\<close>, neither
  handler of lines 178-181 catches it, and the call ends with that exception instead of
  the message of line 142.
\<close>

theorem null_data_raises:
  "scrape_shopee_reviews null_data_world sample_url (lit ''bags'')
     = (Inl AttributeError,
        [HttpGet (lit ''https://shopee.co.id/-i.111.222''),
         HttpGet (lit ''https://shopee.co.id/api/v4/pdp/get_pc?shop_id=111&item_id=222'')])"
  by code_simp






end
